theory Spec2Isabelle
  imports Complex_Main
begin

section \<open>The render-mode and mouse state of the Visualizer (Visualizer.h)\<close>

subsection \<open>Values of type double\<close>

text \<open>
  The header stores the point size and the cursor position in C++ \<^verbatim>\<open>double\<close>
  fields: IEEE 754 binary64, with a significand of 53 bits and exponents from -1022 to
  1023. A double is a NaN, an infinity or a finite value. A finite value is written
  \<open>Finite x\<close> with \<open>x\<close> a real number; it is a double when \<open>x\<close> is one of the
  binary64 values (\<open>is_double\<close> below). The two zeros compare equal and are one value
  here.

  A sum or a product of two finite doubles is the exact real result rounded to the
  nearest binary64 value, ties going to the even significand (the rounding mode a C++
  program runs in unless it changes it), and to an infinity when the rounded value does
  not fit. Every operation is rounded on its own, as on a target that evaluates
  \<^verbatim>\<open>double\<close> expressions in binary64.
\<close>

datatype double = NaN | NegInf | Finite real | PosInf

text \<open>
  The exponent of the binade of a magnitude \<open>a\<close>: the \<open>e\<close> with
  \<open>2 ^ e \<le> a < 2 ^ (e + 1)\<close>, kept within -1022 and 1023 (below \<open>2 ^ -1022\<close> the
  subnormal numbers share the spacing of the lowest binade). It is searched upwards
  from 0 when \<open>1 \<le> a\<close> and downwards otherwise.
\<close>

function exponent_up :: "int \<Rightarrow> real \<Rightarrow> int" where
  "exponent_up e a = (if e < 1023 \<and> 2 powi (e + 1) \<le> a then exponent_up (e + 1) a else e)"
  by pat_completeness auto
termination
  by (relation "measure (\<lambda>(e, a). nat (1023 - e))") auto

function exponent_down :: "int \<Rightarrow> real \<Rightarrow> int" where
  "exponent_down e a = (if - 1022 < e \<and> a < 2 powi e then exponent_down (e - 1) a else e)"
  by pat_completeness auto
termination
  by (relation "measure (\<lambda>(e, a). nat (e + 1022))") auto

definition binade :: "real \<Rightarrow> int" where
  "binade a = (if 1 \<le> a then exponent_up 0 a else exponent_down 0 a)"

text \<open>The spacing of the binary64 values around \<open>x\<close>: the unit in the last place.\<close>

definition ulp :: "real \<Rightarrow> real" where
  "ulp x = 2 powi (binade \<bar>x\<bar> - 52)"

text \<open>The nearest integer, a tie going to the even one.\<close>

definition round_half_even :: "real \<Rightarrow> int" where
  "round_half_even r =
     (let f = \<lfloor>r\<rfloor>
      in if r - of_int f < 1 / 2 then f
         else if 1 / 2 < r - of_int f then f + 1
         else if even f then f else f + 1)"

text \<open>
  Rounding a real result to a double: to the nearest multiple of the spacing, and to
  an infinity when that multiple reaches \<open>2 ^ 1024\<close>.
\<close>

definition round_double :: "real \<Rightarrow> double" where
  "round_double x =
     (let y = ulp x * of_int (round_half_even (x / ulp x))
      in if 2 powi 1024 \<le> y then PosInf
         else if y \<le> - (2 powi 1024) then NegInf
         else Finite y)"

text \<open>
  The multiple of the spacing that rounding picks, before the test for overflow.
\<close>

definition grid_round :: "real \<Rightarrow> real" where
  "grid_round x = ulp x * of_int (round_half_even (x / ulp x))"

text \<open>
  The values of the type that are doubles: the special values, and the finite values
  that rounding leaves as they are.
\<close>

fun is_double :: "double \<Rightarrow> bool" where
  "is_double (Finite x) = (round_double x = Finite x)"
| "is_double NaN = True"
| "is_double NegInf = True"
| "is_double PosInf = True"

text \<open>\<^verbatim>\<open>a + b\<close> on doubles.\<close>

fun dadd :: "double \<Rightarrow> double \<Rightarrow> double" where
  "dadd NaN b = NaN"
| "dadd a NaN = NaN"
| "dadd (Finite x) (Finite y) = round_double (x + y)"
| "dadd (Finite x) PosInf = PosInf"
| "dadd (Finite x) NegInf = NegInf"
| "dadd PosInf (Finite y) = PosInf"
| "dadd NegInf (Finite y) = NegInf"
| "dadd PosInf PosInf = PosInf"
| "dadd NegInf NegInf = NegInf"
| "dadd PosInf NegInf = NaN"
| "dadd NegInf PosInf = NaN"

text \<open>\<^verbatim>\<open>a * b\<close> on doubles: an infinity times zero is a NaN.\<close>

definition inf_of_sign :: "bool \<Rightarrow> double" where
  "inf_of_sign positive = (if positive then PosInf else NegInf)"

fun dmul :: "double \<Rightarrow> double \<Rightarrow> double" where
  "dmul NaN b = NaN"
| "dmul a NaN = NaN"
| "dmul (Finite x) (Finite y) = round_double (x * y)"
| "dmul (Finite x) PosInf = (if x = 0 then NaN else inf_of_sign (0 < x))"
| "dmul (Finite x) NegInf = (if x = 0 then NaN else inf_of_sign (x < 0))"
| "dmul PosInf (Finite y) = (if y = 0 then NaN else inf_of_sign (0 < y))"
| "dmul NegInf (Finite y) = (if y = 0 then NaN else inf_of_sign (y < 0))"
| "dmul PosInf PosInf = PosInf"
| "dmul NegInf NegInf = PosInf"
| "dmul PosInf NegInf = NegInf"
| "dmul NegInf PosInf = NegInf"

text \<open>\<^verbatim>\<open>a <= b\<close> and \<^verbatim>\<open>a >= b\<close> on doubles: false as soon as one side is a NaN.\<close>

fun dle :: "double \<Rightarrow> double \<Rightarrow> bool" where
  "dle NaN b = False"
| "dle a NaN = False"
| "dle (Finite x) (Finite y) = (x \<le> y)"
| "dle NegInf b = True"
| "dle a PosInf = True"
| "dle (Finite x) NegInf = False"
| "dle PosInf (Finite y) = False"
| "dle PosInf NegInf = False"

definition dge :: "double \<Rightarrow> double \<Rightarrow> bool" where
  "dge a b = dle b a"

subsection \<open>Point-cloud render mode\<close>

text \<open>\<^verbatim>\<open>enum PointColorOption\<close>, in the order of its enumerator values 0 to 4.\<close>

datatype PointColorOption =
    POINTCOLOR_DEFAULT
  | POINTCOLOR_COLOR
  | POINTCOLOR_X
  | POINTCOLOR_Y
  | POINTCOLOR_Z

fun PointColorOption_value :: "PointColorOption \<Rightarrow> nat" where
  "PointColorOption_value POINTCOLOR_DEFAULT = 0"
| "PointColorOption_value POINTCOLOR_COLOR = 1"
| "PointColorOption_value POINTCOLOR_X = 2"
| "PointColorOption_value POINTCOLOR_Y = 3"
| "PointColorOption_value POINTCOLOR_Z = 4"

text \<open>
  \<^verbatim>\<open>struct PointCloudRenderMode\<close>. Its four \<^verbatim>\<open>const double\<close> members carry a
  default member initialiser that the constructor does not override, so they have the
  same value in every instance and are constants here.
\<close>

definition POINT_SIZE_MAX :: double where
  "POINT_SIZE_MAX = Finite 25"

definition POINT_SIZE_MIN :: double where
  "POINT_SIZE_MIN = Finite 1"

definition POINT_SIZE_STEP :: double where
  "POINT_SIZE_STEP = Finite 1"

definition POINT_SIZE_DEFAULT :: double where
  "POINT_SIZE_DEFAULT = Finite 5"

record PointCloudRenderMode =
  point_size :: double
  point_color_option :: PointColorOption
  show_normal :: bool

text \<open>The constructor \<^verbatim>\<open>PointCloudRenderMode()\<close>.\<close>

definition PointCloudRenderMode_init :: PointCloudRenderMode where
  "PointCloudRenderMode_init =
     \<lparr> point_size = POINT_SIZE_DEFAULT,
       point_color_option = POINTCOLOR_DEFAULT,
       show_normal = False \<rparr>"

text \<open>
  \<^verbatim>\<open>void ChangePointSize(double change)\<close>: the object is passed in and the updated
  object is returned.
\<close>

definition ChangePointSize :: "double \<Rightarrow> PointCloudRenderMode \<Rightarrow> PointCloudRenderMode" where
  "ChangePointSize change m =
     (let new_point_size = dadd (point_size m) (dmul change POINT_SIZE_STEP)
      in if dge new_point_size POINT_SIZE_MIN \<and> dle new_point_size POINT_SIZE_MAX
         then m\<lparr>point_size := new_point_size\<rparr>
         else m)"

text \<open>A sequence of calls \<^verbatim>\<open>ChangePointSize(d1); ChangePointSize(d2); ...\<close> on one object.\<close>

fun ChangePointSize_calls :: "double list \<Rightarrow> PointCloudRenderMode \<Rightarrow> PointCloudRenderMode" where
  "ChangePointSize_calls [] m = m"
| "ChangePointSize_calls (change # changes) m =
     ChangePointSize_calls changes (ChangePointSize change m)"

text \<open>
  The clamping variant that the overview of the spec describes (section 2:
  "ChangePointSize clamps to [1,25] in steps of 1"): a result out of range is moved to
  the nearer bound. It is here for comparison with \<^verbatim>\<open>ChangePointSize\<close> above and
  stands for no code.
\<close>

definition clamp_double :: "double \<Rightarrow> double \<Rightarrow> double \<Rightarrow> double" where
  "clamp_double lo hi x = (if dle x lo then lo else if dle hi x then hi else x)"

definition ChangePointSize_clamping :: "double \<Rightarrow> PointCloudRenderMode \<Rightarrow> PointCloudRenderMode" where
  "ChangePointSize_clamping change m =
     m\<lparr>point_size :=
         clamp_double POINT_SIZE_MIN POINT_SIZE_MAX
           (dadd (point_size m) (dmul change POINT_SIZE_STEP))\<rparr>"

subsection \<open>Mesh render mode\<close>

datatype MeshRenderOption =
    MESHRENDER_VERTEXCOLOR
  | MESHRENDER_FLATSHADE
  | MESHRENDER_SMOOTHSHADE
  | MESHRENDER_WIREFRAME

text \<open>
  \<^verbatim>\<open>struct MeshRenderMode\<close>. \<^verbatim>\<open>DEFAULT_COLOR\<close> is a const
  \<^verbatim>\<open>Eigen::Vector3d\<close> member with a default member initialiser: a constant
  triple of doubles.
\<close>

definition DEFAULT_COLOR :: "double \<times> double \<times> double" where
  "DEFAULT_COLOR = (Finite 0.5, Finite 0.5, Finite 0.5)"

record MeshRenderMode =
  mesh_render_option :: MeshRenderOption

definition MeshRenderMode_init :: MeshRenderMode where
  "MeshRenderMode_init = \<lparr> mesh_render_option = MESHRENDER_FLATSHADE \<rparr>"

subsection \<open>Mouse state\<close>

record MouseControl =
  is_mouse_left_button_down :: bool
  is_control_key_down :: bool
  mouse_position_x :: double
  mouse_position_y :: double

definition MouseControl_init :: MouseControl where
  "MouseControl_init =
     \<lparr> is_mouse_left_button_down = False,
       is_control_key_down = False,
       mouse_position_x = Finite 0,
       mouse_position_y = Finite 0 \<rparr>"

section \<open>The operations declared in Visualizer.h whose bodies are elsewhere\<close>

text \<open>
  The header declares the viewer's public operations and its callbacks; their bodies
  are in Visualizer.cpp, which is not among the sources. The definitions of this
  section follow the specification, each one naming the part it stands for.
\<close>

subsection \<open>Cycling the colour option\<close>

text \<open>
  Modelled from the spec: the colour-option cycle of the key-press handler
  (\<^verbatim>\<open>KeyPressCallback\<close> is only declared in the header). Section 4.1: cycling the
  colour option "is a simple next-in-enum-with-wraparound operation triggered by key
  events". The order is the one of the enumerator values in the header.
\<close>

fun next_PointColorOption :: "PointColorOption \<Rightarrow> PointColorOption" where
  "next_PointColorOption POINTCOLOR_DEFAULT = POINTCOLOR_COLOR"
| "next_PointColorOption POINTCOLOR_COLOR = POINTCOLOR_X"
| "next_PointColorOption POINTCOLOR_X = POINTCOLOR_Y"
| "next_PointColorOption POINTCOLOR_Y = POINTCOLOR_Z"
| "next_PointColorOption POINTCOLOR_Z = POINTCOLOR_DEFAULT"

definition CyclePointColorOption :: "PointCloudRenderMode \<Rightarrow> PointCloudRenderMode" where
  "CyclePointColorOption m =
     m\<lparr>point_color_option := next_PointColorOption (point_color_option m)\<rparr>"

subsection \<open>The viewer object\<close>

text \<open>
  A registry entry is a \<^verbatim>\<open>std::shared_ptr<const Geometry>\<close>: a reference to a
  geometry object that the viewer never changes. The object is named by its address;
  the constructor is its dynamic kind. The spec gives a draw routine for point clouds
  and triangle meshes, the two kinds kept here.
\<close>

datatype Geometry = PointCloud nat | TriangleMesh nat

text \<open>
  Modelled from the spec: the life cycle of the native window (section 4.5, "State
  machine over window lifecycle: {Open, Closing, Closed}"), which GLFW keeps behind
  the \<^verbatim>\<open>GLFWwindow*\<close> handle.
\<close>

datatype WindowLifecycle = Open | Closing | Closed

text \<open>
  The data members of \<^verbatim>\<open>class Visualizer\<close> that the operations below read or
  write, named without the trailing underscore of the header (\<^verbatim>\<open>window\<close> is
  the member \<^verbatim>\<open>window_\<close>, and so on). \<^verbatim>\<open>window\<close> is a pointer: \<open>None\<close> is
  the null handle of a viewer that has no window, and a window is known by its life
  cycle. The camera, the colour map, the background colour and the redraw flag belong
  to the rendering collaborators and are left out.
\<close>

record Visualizer =
  window :: "WindowLifecycle option"
  mouse_control :: MouseControl
  pointcloud_render_mode :: PointCloudRenderMode
  mesh_render_mode :: MeshRenderMode
  geometry_ptrs :: "Geometry list"

text \<open>
  Modelled from the spec: the constructor \<^verbatim>\<open>Visualizer()\<close>, declared in the header
  only. The member structs are built by their own constructors, the vector is empty,
  and there is no window before \<^verbatim>\<open>CreateWindow\<close> (section 3: the native window
  handle is "created in CreateWindow").
\<close>

definition Visualizer_init :: Visualizer where
  "Visualizer_init =
     \<lparr> window = None,
       mouse_control = MouseControl_init,
       pointcloud_render_mode = PointCloudRenderMode_init,
       mesh_render_mode = MeshRenderMode_init,
       geometry_ptrs = [] \<rparr>"

subsection \<open>The geometry registry\<close>

text \<open>
  Modelled from the spec: \<^verbatim>\<open>AddGeometry\<close> and \<^verbatim>\<open>HasGeometry\<close>, declared in the
  header only. Section 4.2: "Add(geometry) appends a shared read-only reference";
  "IsEmpty() reports whether any geometry is registered".
\<close>

definition AddGeometry :: "Geometry \<Rightarrow> Visualizer \<Rightarrow> Visualizer" where
  "AddGeometry geometry_ptr v = v\<lparr>geometry_ptrs := geometry_ptrs v @ [geometry_ptr]\<rparr>"

definition HasGeometry :: "Visualizer \<Rightarrow> bool" where
  "HasGeometry v = (geometry_ptrs v \<noteq> [])"

text \<open>A sequence of calls \<^verbatim>\<open>AddGeometry(g1); AddGeometry(g2); ...\<close> on one viewer.\<close>

fun AddGeometry_calls :: "Geometry list \<Rightarrow> Visualizer \<Rightarrow> Visualizer" where
  "AddGeometry_calls [] v = v"
| "AddGeometry_calls (g # gs) v = AddGeometry_calls gs (AddGeometry g v)"

text \<open>
  Modelled from the spec: the draw calls of one frame of \<^verbatim>\<open>Render\<close>, declared in
  the header only. Section 4.4, step 4: "For each entry in GeometryRegistry, dispatch
  on its dynamic geometry kind: PointCloud -> DrawPointCloud; TriangleMesh ->
  DrawTriangleMesh". The result is the list of draw calls in the order they are made.
\<close>

datatype DrawCall = DrawPointCloud nat | DrawTriangleMesh nat

fun draw_dispatch :: "Geometry \<Rightarrow> DrawCall" where
  "draw_dispatch (PointCloud a) = DrawPointCloud a"
| "draw_dispatch (TriangleMesh a) = DrawTriangleMesh a"

fun drawn_geometry :: "DrawCall \<Rightarrow> Geometry" where
  "drawn_geometry (DrawPointCloud a) = PointCloud a"
| "drawn_geometry (DrawTriangleMesh a) = TriangleMesh a"

definition Render :: "Visualizer \<Rightarrow> DrawCall list" where
  "Render v = map draw_dispatch (geometry_ptrs v)"

subsection \<open>The event loop and the window's life cycle\<close>

text \<open>The native events, one per callback of the header, with the callback's arguments.\<close>

datatype WindowEvent =
    WindowRefresh
  | WindowResize int int
  | MouseMove double double
  | MouseScroll double double
  | MouseButton int int int
  | KeyPress int int int int
  | WindowClose

text \<open>
  Modelled from the spec: the events that are a close request. Section 4.5:
  "Open->Closing on a close request (user closes window or escape-equivalent)". The
  window-close event is one. Which key presses are escape-equivalent is decided in the
  key-press handler, whose body is absent and whose keys the spec does not name: the
  decision is the parameter \<open>escape_equivalent\<close>, over the key, the scan code, the
  action and the modifiers of the key press.
\<close>

type_synonym escape_keys = "int \<Rightarrow> int \<Rightarrow> int \<Rightarrow> int \<Rightarrow> bool"

fun close_requested :: "escape_keys \<Rightarrow> WindowEvent \<Rightarrow> bool" where
  "close_requested escape_equivalent WindowClose = True"
| "close_requested escape_equivalent (KeyPress key scancode action mods) =
     escape_equivalent key scancode action mods"
| "close_requested escape_equivalent e = False"

text \<open>
  Modelled from the spec: the close transition (section 4.5): "transition state to
  Closing, release GL/window resources, transition to Closed". \<open>Closed\<close> is terminal.
\<close>

fun close_request :: "WindowLifecycle \<Rightarrow> WindowLifecycle" where
  "close_request Open = Closing"
| "close_request Closing = Closing"
| "close_request Closed = Closed"

fun release_resources :: "WindowLifecycle \<Rightarrow> WindowLifecycle" where
  "release_resources Open = Open"
| "release_resources Closing = Closed"
| "release_resources Closed = Closed"

definition WindowCloseCallback :: "WindowLifecycle \<Rightarrow> WindowLifecycle" where
  "WindowCloseCallback w = release_resources (close_request w)"

text \<open>
  Modelled from the spec: the effect of one event on the life cycle. A close request
  runs the close transition; the other events update the mouse state, the render
  modes, the camera and the redraw flag, and leave the life cycle as it is.
\<close>

definition dispatch_event :: "escape_keys \<Rightarrow> WindowEvent \<Rightarrow> WindowLifecycle \<Rightarrow> WindowLifecycle" where
  "dispatch_event escape_equivalent e w =
     (if close_requested escape_equivalent e then WindowCloseCallback w else w)"

text \<open>
  Modelled from the spec: \<^verbatim>\<open>PollEvents\<close> and \<^verbatim>\<open>WaitEvents\<close>, declared in the
  header only, on the life cycle of the viewer's window. Section 4.3: PollEvents
  "drains whatever is queued"; WaitEvents "blocks until at least one input event
  arrives then processes the queue"; "Both return false once the window has been
  closed, true otherwise". The queue is an input; the one of \<^verbatim>\<open>WaitEvents\<close> holds
  the event that woke the call.
\<close>

definition PollEvents ::
  "escape_keys \<Rightarrow> WindowEvent list \<Rightarrow> WindowLifecycle \<Rightarrow> bool \<times> WindowLifecycle" where
  "PollEvents escape_equivalent queue w =
     (let w' = fold (dispatch_event escape_equivalent) queue w in (w' \<noteq> Closed, w'))"

definition WaitEvents ::
  "escape_keys \<Rightarrow> WindowEvent \<Rightarrow> WindowEvent list \<Rightarrow> WindowLifecycle \<Rightarrow>
   bool \<times> WindowLifecycle" where
  "WaitEvents escape_equivalent first queue w =
     (let w' = fold (dispatch_event escape_equivalent) (first # queue) w
      in (w' \<noteq> Closed, w'))"

text \<open>A caller's own loop: successive calls, each with the queue it finds.\<close>

datatype EventCall =
    CallPollEvents "WindowEvent list"
  | CallWaitEvents WindowEvent "WindowEvent list"

fun event_call :: "escape_keys \<Rightarrow> EventCall \<Rightarrow> WindowLifecycle \<Rightarrow> bool \<times> WindowLifecycle" where
  "event_call escape_equivalent (CallPollEvents queue) w = PollEvents escape_equivalent queue w"
| "event_call escape_equivalent (CallWaitEvents first queue) w =
     WaitEvents escape_equivalent first queue w"

text \<open>The values the calls of a loop return, in order.\<close>

fun event_calls :: "escape_keys \<Rightarrow> EventCall list \<Rightarrow> WindowLifecycle \<Rightarrow> bool list" where
  "event_calls escape_equivalent [] w = []"
| "event_calls escape_equivalent (c # cs) w =
     fst (event_call escape_equivalent c w) #
     event_calls escape_equivalent cs (snd (event_call escape_equivalent c w))"

text \<open>The events a call processes, and whether a close request is among them.\<close>

fun call_queue :: "EventCall \<Rightarrow> WindowEvent list" where
  "call_queue (CallPollEvents queue) = queue"
| "call_queue (CallWaitEvents first queue) = first # queue"

definition call_closes :: "escape_keys \<Rightarrow> EventCall \<Rightarrow> bool" where
  "call_closes escape_equivalent c = list_ex (close_requested escape_equivalent) (call_queue c)"

text \<open>
  An example of escape-equivalent keys, for the concrete runs below: the press
  (action 1) of the key with code 256.
\<close>

definition escape_press :: escape_keys where
  "escape_press key scancode action mods = (key = 256 \<and> action = 1)"

section \<open>Properties\<close>

subsection \<open>Rounding to a double\<close>

lemma exponent_up_step:
  "e < 1023 \<Longrightarrow> 2 powi (e + 1) \<le> a \<Longrightarrow> exponent_up e a = exponent_up (e + 1) a"
  by (subst exponent_up.simps) simp

lemma exponent_up_stop:
  "\<not> (e < 1023 \<and> 2 powi (e + 1) \<le> a) \<Longrightarrow> exponent_up e a = e"
  by (subst exponent_up.simps) simp

lemma exponent_down_step:
  "- 1022 < e \<Longrightarrow> a < 2 powi e \<Longrightarrow> exponent_down e a = exponent_down (e - 1) a"
  by (subst exponent_down.simps) simp

lemma exponent_down_stop:
  "\<not> (- 1022 < e \<and> a < 2 powi e) \<Longrightarrow> exponent_down e a = e"
  by (subst exponent_down.simps) simp

declare exponent_up.simps [simp del] exponent_down.simps [simp del]

lemma exponent_up_ge: "e \<le> exponent_up e a"
proof (induction e a rule: exponent_up.induct)
  case (1 e a)
  show ?case
  proof (cases "e < 1023 \<and> 2 powi (e + 1) \<le> a")
    case True
    then show ?thesis using 1 by (simp add: exponent_up_step)
  next
    case False
    then show ?thesis by (simp add: exponent_up_stop)
  qed
qed

lemma exponent_up_lower: "2 powi e \<le> a \<Longrightarrow> 2 powi (exponent_up e a) \<le> a"
proof (induction e a rule: exponent_up.induct)
  case (1 e a)
  show ?case
  proof (cases "e < 1023 \<and> 2 powi (e + 1) \<le> a")
    case True
    then show ?thesis using 1 by (simp add: exponent_up_step)
  next
    case False
    then show ?thesis using 1(2) by (simp add: exponent_up_stop)
  qed
qed

lemma exponent_up_upper: "exponent_up e a < 1023 \<Longrightarrow> a < 2 powi (exponent_up e a + 1)"
proof (induction e a rule: exponent_up.induct)
  case (1 e a)
  show ?case
  proof (cases "e < 1023 \<and> 2 powi (e + 1) \<le> a")
    case True
    then show ?thesis using 1 by (simp add: exponent_up_step)
  next
    case False
    then have eq: "exponent_up e a = e"
      by (rule exponent_up_stop)
    show ?thesis using 1(2) False unfolding eq by auto
  qed
qed

lemma exponent_down_le: "exponent_down e a \<le> e"
proof (induction e a rule: exponent_down.induct)
  case (1 e a)
  show ?case
  proof (cases "- 1022 < e \<and> a < 2 powi e")
    case True
    then show ?thesis using 1 by (simp add: exponent_down_step)
  next
    case False
    then show ?thesis by (simp add: exponent_down_stop)
  qed
qed


lemma two_powi_less_cancel: "(2::real) powi m < 2 powi n \<Longrightarrow> m < n"
proof (rule ccontr)
  assume less: "(2::real) powi m < 2 powi n" and "\<not> m < n"
  then have "n \<le> m" by simp
  then have "(2::real) powi n \<le> 2 powi m"
    by (rule power_int_increasing) simp
  then show False using less by simp
qed

lemma binade_lower: "1 \<le> a \<Longrightarrow> 0 \<le> binade a \<and> 2 powi (binade a) \<le> a"
  using exponent_up_ge [of 0 a] exponent_up_lower [of 0 a] by (simp add: binade_def)

lemma binade_upper: "1 \<le> a \<Longrightarrow> binade a < 1023 \<Longrightarrow> a < 2 powi (binade a + 1)"
  using exponent_up_upper [of 0 a] by (simp add: binade_def)

lemma binade_below_1023: "1 \<le> a \<Longrightarrow> a < 2 powi 1023 \<Longrightarrow> binade a < 1023"
proof -
  assume a: "1 \<le> a" "a < 2 powi 1023"
  have "2 powi (binade a) \<le> a"
    using a binade_lower by simp
  then have "2 powi (binade a) < (2::real) powi 1023"
    using a by linarith
  then show ?thesis by (rule two_powi_less_cancel)
qed

lemma binade_small: "a < 1 \<Longrightarrow> binade a \<le> 0"
  using exponent_down_le [of 0 a] by (simp add: binade_def)

lemma binade_mono:
  assumes "0 \<le> a" "a \<le> c" "1 \<le> c" "c < 2 powi 1023"
  shows "binade a \<le> binade c"
proof (cases "1 \<le> a")
  case True
  have "2 powi (binade a) \<le> a"
    using True binade_lower by simp
  moreover have "c < 2 powi (binade c + 1)"
    using assms binade_upper binade_below_1023 by simp
  ultimately have "2 powi (binade a) < (2::real) powi (binade c + 1)"
    using assms by linarith
  then have "binade a < binade c + 1"
    by (rule two_powi_less_cancel)
  then show ?thesis by simp
next
  case False
  then have "binade a \<le> 0"
    using binade_small by simp
  then show ?thesis using binade_lower [of c] assms by simp
qed

lemma ulp_pos: "0 < ulp x"
  by (simp add: ulp_def)

lemma round_half_even_bounds: "\<lfloor>r\<rfloor> \<le> round_half_even r \<and> round_half_even r \<le> \<lceil>r\<rceil>"
  unfolding round_half_even_def Let_def by (auto simp add: ceiling_altdef)

lemma round_half_even_of_int: "round_half_even (of_int k) = k"
  by (simp add: round_half_even_def)

lemma round_half_even_ge: "of_int k \<le> r \<Longrightarrow> k \<le> round_half_even r"
  using round_half_even_bounds [of r] le_floor_iff [of k r] by linarith

lemma round_half_even_le: "r \<le> of_int k \<Longrightarrow> round_half_even r \<le> k"
  using round_half_even_bounds [of r] ceiling_le_iff [of r k] by linarith

lemma round_double_grid:
  "round_double x =
     (if 2 powi 1024 \<le> grid_round x then PosInf
      else if grid_round x \<le> - (2 powi 1024) then NegInf
      else Finite (grid_round x))"
  by (simp add: round_double_def grid_round_def Let_def)

lemma round_double_Finite: "round_double x = Finite y \<Longrightarrow> y = grid_round x"
  by (simp add: round_double_grid split: if_splits)

lemma grid_round_ge:
  assumes "ulp x * of_int k \<le> x"
  shows "ulp x * of_int k \<le> grid_round x"
proof -
  have "of_int k \<le> x / ulp x"
    using assms ulp_pos [of x] by (simp add: pos_le_divide_eq mult.commute)
  then have "k \<le> round_half_even (x / ulp x)"
    by (rule round_half_even_ge)
  then have "(of_int k :: real) \<le> of_int (round_half_even (x / ulp x))"
    by simp
  then show ?thesis
    unfolding grid_round_def using ulp_pos [of x] by (simp add: mult_left_mono)
qed

lemma grid_round_le:
  assumes "x \<le> ulp x * of_int k"
  shows "grid_round x \<le> ulp x * of_int k"
proof -
  have "x / ulp x \<le> of_int k"
    using assms ulp_pos [of x] by (simp add: pos_divide_le_eq mult.commute)
  then have "round_half_even (x / ulp x) \<le> k"
    by (rule round_half_even_le)
  then have "(of_int (round_half_even (x / ulp x)) :: real) \<le> of_int k"
    by simp
  then show ?thesis
    unfolding grid_round_def using ulp_pos [of x] by (simp add: mult_left_mono)
qed

lemma grid_round_nonneg: "0 \<le> x \<Longrightarrow> 0 \<le> grid_round x"
  using grid_round_ge [of x 0] by simp

lemma grid_round_nonpos: "x \<le> 0 \<Longrightarrow> grid_round x \<le> 0"
  using grid_round_le [of x 0] by simp

lemma two_powi_split: "m \<le> n \<Longrightarrow> (2::real) powi n = 2 powi m * of_int (2 ^ nat (n - m))"
proof -
  assume "m \<le> n"
  then have "(2::real) powi n = 2 powi (m + (n - m))" by simp
  also have "\<dots> = 2 powi m * 2 powi (n - m)"
    by (rule power_int_add) simp
  also have "2 powi (n - m) = (2::real) ^ nat (n - m)"
    using \<open>m \<le> n\<close> by (simp add: power_int_nonneg_exp)
  finally show ?thesis by simp
qed

lemma grid_round_of_int:
  assumes "\<bar>n\<bar> < 2 ^ 53"
  shows "grid_round (of_int n) = of_int n"
proof (cases "n = 0")
  case True
  then show ?thesis by (simp add: grid_round_def round_half_even_def)
next
  case False
  define a :: real where "a = \<bar>of_int n\<bar>"
  have a_int: "a = of_int \<bar>n\<bar>"
    unfolding a_def by simp
  have "1 \<le> \<bar>n\<bar>"
    using False by simp
  then have a1: "1 \<le> a"
    unfolding a_int by (simp only: of_int_1_le_iff)
  have "a < of_int (2 ^ 53)"
    unfolding a_int using assms by (simp only: of_int_less_iff)
  then have "a < 2 ^ 53" by simp
  then have a2: "a < 2 powi 53" by simp
  have "2 powi (binade a) \<le> a"
    using a1 binade_lower by simp
  then have "2 powi (binade a) < (2::real) powi 53"
    using a2 by linarith
  then have "binade a < 53"
    by (rule two_powi_less_cancel)
  then have le: "binade a - 52 \<le> 0" by simp
  have one: "(1::real) = ulp (of_int n) * of_int (2 ^ nat (0 - (binade a - 52)))"
    using two_powi_split [OF le] by (simp add: ulp_def a_def)
  define K :: int where "K = 2 ^ nat (0 - (binade a - 52))"
  have uK: "ulp (of_int n) * of_int K = 1"
    using one unfolding K_def by simp
  then have "of_int n / ulp (of_int n) = (of_int (n * K) :: real)"
    using ulp_pos [of "of_int n"] by (simp add: field_simps)
  then have "round_half_even (of_int n / ulp (of_int n)) = n * K"
    using round_half_even_of_int [of "n * K"] by simp
  then have "grid_round (of_int n) = ulp (of_int n) * of_int (n * K)"
    by (simp add: grid_round_def)
  also have "\<dots> = of_int n * (ulp (of_int n) * of_int K)"
    by simp
  finally show ?thesis using uK by simp
qed

lemma round_double_of_int:
  assumes "\<bar>n\<bar> < 2 ^ 53"
  shows "round_double (of_int n) = Finite (of_int n)"
proof -
  have "(of_int \<bar>n\<bar> :: real) < of_int (2 ^ 53)"
    using assms by (simp only: of_int_less_iff)
  then have "\<bar>of_int n :: real\<bar> < 2 ^ 53"
    by simp
  moreover have "(2::real) ^ 53 < 2 powi 1024" by simp
  ultimately have "\<bar>of_int n :: real\<bar> < 2 powi 1024" by linarith
  then show ?thesis
    by (simp add: round_double_grid grid_round_of_int [OF assms] abs_less_iff)
qed

lemma representable_grid:
  "round_double p = Finite p \<Longrightarrow> p = ulp p * of_int (round_half_even (p / ulp p))"
  using round_double_Finite [of p p] by (simp add: grid_round_def)

lemma grid_round_above_representable:
  assumes rep: "round_double p = Finite p" and p: "1 \<le> p" "p < 2 powi 1023" and px: "p \<le> x"
  shows "p \<le> grid_round x"
proof -
  have x1: "1 \<le> x" using p px by simp
  have abs: "\<bar>x\<bar> = x" "\<bar>p\<bar> = p" using x1 p by simp_all
  have low_p: "2 powi (binade p) \<le> p" using p binade_lower by simp
  have low_x: "2 powi (binade x) \<le> x" using x1 binade_lower by simp
  have le: "binade p \<le> binade x"
  proof (cases "binade x < 1023")
    case True
    then have "x < 2 powi (binade x + 1)"
      using x1 binade_upper by simp
    then have "2 powi (binade p) < (2::real) powi (binade x + 1)"
      using low_p px by linarith
    then have "binade p < binade x + 1"
      by (rule two_powi_less_cancel)
    then show ?thesis by simp
  next
    case False
    then show ?thesis using binade_below_1023 [of p] p by simp
  qed
  show ?thesis
  proof (cases "binade p = binade x")
    case True
    then have "ulp p = ulp x"
      by (simp add: ulp_def abs)
    then have "p = ulp x * of_int (round_half_even (p / ulp p))"
      using representable_grid [OF rep] by simp
    then show ?thesis
      using grid_round_ge [of x "round_half_even (p / ulp p)"] px by simp
  next
    case False
    then have "binade p + 1 \<le> binade x" using le by simp
    then have "(2::real) powi (binade p + 1) \<le> 2 powi (binade x)"
      by (rule power_int_increasing) simp
    moreover have "p < 2 powi (binade p + 1)"
      using p binade_upper binade_below_1023 by simp
    ultimately have less: "p < 2 powi (binade x)" by linarith
    have "(2::real) powi (binade x) = 2 powi (binade x - 52) * of_int (2 ^ nat (binade x - (binade x - 52)))"
      by (rule two_powi_split) simp
    then have eq: "(2::real) powi (binade x) = ulp x * of_int (2 ^ 52)"
      by (simp add: ulp_def abs)
    have "ulp x * of_int (2 ^ 52) \<le> grid_round x"
      using low_x unfolding eq by (rule grid_round_ge)
    then show ?thesis using less unfolding eq by linarith
  qed
qed

lemma grid_round_below_representable:
  assumes rep: "round_double p = Finite p" and p: "1 \<le> p" "p < 2 powi 1023" and xp: "x \<le> p"
  shows "grid_round x \<le> p"
proof (cases "x \<le> 0")
  case True
  then have "grid_round x \<le> 0" by (rule grid_round_nonpos)
  then show ?thesis using p by simp
next
  case False
  then have x0: "0 \<le> x" by simp
  have abs: "\<bar>x\<bar> = x" "\<bar>p\<bar> = p" using x0 p by simp_all
  have le: "binade x \<le> binade p"
    using x0 xp p by (rule binade_mono)
  then have le52: "binade x - 52 \<le> binade p - 52" by simp
  have "(2::real) powi (binade p - 52) =
      2 powi (binade x - 52) * of_int (2 ^ nat (binade p - 52 - (binade x - 52)))"
    using le52 by (rule two_powi_split)
  then have ulps: "ulp p = ulp x * of_int (2 ^ nat (binade p - binade x))"
    by (simp add: ulp_def abs)
  define K :: int where "K = 2 ^ nat (binade p - binade x) * round_half_even (p / ulp p)"
  have "p = ulp p * of_int (round_half_even (p / ulp p))"
    using rep by (rule representable_grid)
  then have pK: "p = ulp x * of_int K"
    unfolding K_def ulps by (simp add: mult.assoc)
  have "x \<le> ulp x * of_int K"
    using xp pK by simp
  then have "grid_round x \<le> ulp x * of_int K"
    by (rule grid_round_le)
  then show ?thesis using pK by simp
qed

lemma exponent_up_le: "e \<le> 1023 \<Longrightarrow> exponent_up e a \<le> 1023"
proof (induction e a rule: exponent_up.induct)
  case (1 e a)
  show ?case
  proof (cases "e < 1023 \<and> 2 powi (e + 1) \<le> a")
    case True
    then show ?thesis using 1 by (simp add: exponent_up_step)
  next
    case False
    then show ?thesis using 1(2) by (simp add: exponent_up_stop)
  qed
qed

lemma exponent_down_ge: "- 1022 \<le> e \<Longrightarrow> - 1022 \<le> exponent_down e a"
proof (induction e a rule: exponent_down.induct)
  case (1 e a)
  show ?case
  proof (cases "- 1022 < e \<and> a < 2 powi e")
    case True
    then show ?thesis using 1 by (simp add: exponent_down_step)
  next
    case False
    then show ?thesis using 1(2) by (simp add: exponent_down_stop)
  qed
qed

lemma exponent_down_upper: "a < 2 powi (e + 1) \<Longrightarrow> a < 2 powi (exponent_down e a + 1)"
proof (induction e a rule: exponent_down.induct)
  case (1 e a)
  show ?case
  proof (cases "- 1022 < e \<and> a < 2 powi e")
    case True
    then show ?thesis using 1 by (simp add: exponent_down_step)
  next
    case False
    then show ?thesis using 1(2) by (simp add: exponent_down_stop)
  qed
qed

lemma exponent_down_lower: "- 1022 < exponent_down e a \<Longrightarrow> 2 powi (exponent_down e a) \<le> a"
proof (induction e a rule: exponent_down.induct)
  case (1 e a)
  show ?case
  proof (cases "- 1022 < e \<and> a < 2 powi e")
    case True
    then show ?thesis using 1 by (simp add: exponent_down_step)
  next
    case False
    then have eq: "exponent_down e a = e"
      by (rule exponent_down_stop)
    show ?thesis using 1(2) False unfolding eq by auto
  qed
qed

lemma binade_range: "- 1022 \<le> binade a \<and> binade a \<le> 1023"
  using exponent_up_ge [of 0 a] exponent_up_le [of 0 a]
    exponent_down_ge [of 0 a] exponent_down_le [of 0 a]
  by (simp add: binade_def)

lemma binade_upper_all: "binade a < 1023 \<Longrightarrow> a < 2 powi (binade a + 1)"
proof (cases "1 \<le> a")
  case True
  assume "binade a < 1023"
  then show ?thesis using True by (rule binade_upper [rotated])
next
  case False
  then show ?thesis
    using exponent_down_upper [of a 0] by (simp add: binade_def)
qed

lemma binade_lower_all: "- 1022 < binade a \<Longrightarrow> 2 powi (binade a) \<le> a"
proof (cases "1 \<le> a")
  case True
  then show ?thesis using binade_lower by simp
next
  case False
  assume "- 1022 < binade a"
  then show ?thesis
    using False exponent_down_lower [of 0 a] by (simp add: binade_def)
qed

lemma binade_le:
  assumes "- 1022 \<le> e" and "a < 2 powi (e + 1)"
  shows "binade a \<le> e"
proof (cases "- 1022 < binade a")
  case True
  then have "2 powi (binade a) \<le> a"
    by (rule binade_lower_all)
  then have "2 powi (binade a) < (2::real) powi (e + 1)"
    using assms by linarith
  then have "binade a < e + 1"
    by (rule two_powi_less_cancel)
  then show ?thesis by simp
next
  case False
  then show ?thesis using assms by simp
qed

lemma grid_round_multiple:
  assumes "x = ulp x * of_int k"
  shows "grid_round x = x"
proof -
  have "x / ulp x = of_int k"
    using assms ulp_pos [of x] by (metis less_irrefl nonzero_mult_div_cancel_left)
  then have "round_half_even (x / ulp x) = k"
    by (simp add: round_half_even_of_int)
  then show ?thesis using assms by (simp add: grid_round_def)
qed

lemma grid_round_abs_le:
  assumes "\<bar>x\<bar> \<le> ulp x * of_int k"
  shows "\<bar>grid_round x\<bar> \<le> ulp x * of_int k"
proof -
  have "x \<le> ulp x * of_int k" using assms by simp
  then have up: "grid_round x \<le> ulp x * of_int k"
    by (rule grid_round_le)
  have "ulp x * of_int (- k) \<le> x" using assms by simp
  then have "ulp x * of_int (- k) \<le> grid_round x"
    by (rule grid_round_ge)
  then show ?thesis using up by simp
qed

lemma grid_round_idem:
  assumes small: "\<bar>grid_round x\<bar> < 2 powi 1024"
  shows "grid_round (grid_round x) = grid_round x"
proof -
  define y where "y = grid_round x"
  define b where "b = binade \<bar>x\<bar>"
  define c where "c = binade \<bar>y\<bar>"
  define k where "k = round_half_even (x / ulp x)"
  have ux: "ulp x = 2 powi (b - 52)" by (simp add: ulp_def b_def)
  have uy: "ulp y = 2 powi (c - 52)" by (simp add: ulp_def c_def)
  have y: "y = 2 powi (b - 52) * of_int k"
    by (simp add: y_def grid_round_def k_def ux)
  have b: "- 1022 \<le> b" "b \<le> 1023"
    using binade_range [of "\<bar>x\<bar>"] by (simp_all add: b_def)
  have top: "(2::real) powi (b + 1) = 2 powi (b - 52) * of_int (2 ^ 53)"
    using two_powi_split [of "b - 52" "b + 1"] by simp
  have y_le: "\<bar>y\<bar> \<le> 2 powi (b + 1)"
  proof (cases "b < 1023")
    case True
    then have "\<bar>x\<bar> < 2 powi (b + 1)"
      unfolding b_def by (rule binade_upper_all)
    then have "\<bar>x\<bar> \<le> ulp x * of_int (2 ^ 53)"
      using top ux by simp
    then have "\<bar>grid_round x\<bar> \<le> ulp x * of_int (2 ^ 53)"
      by (rule grid_round_abs_le)
    then show ?thesis using top ux y_def by simp
  next
    case False
    then have "b = 1023" using b by simp
    then show ?thesis using small y_def by simp
  qed
  have "\<exists>K. y = ulp y * of_int K"
  proof (cases "c \<le> b")
    case True
    then have "c - 52 \<le> b - 52" by simp
    then have "(2::real) powi (b - 52) = 2 powi (c - 52) * of_int (2 ^ nat (b - 52 - (c - 52)))"
      by (rule two_powi_split)
    then have "y = ulp y * of_int (2 ^ nat (b - 52 - (c - 52)) * k)"
      using y uy by (simp add: mult.assoc)
    then show ?thesis by blast
  next
    case False
    have "\<not> \<bar>y\<bar> < 2 powi (b + 1)"
    proof
      assume "\<bar>y\<bar> < 2 powi (b + 1)"
      then have "c \<le> b"
        unfolding c_def using b(1) by (rule binade_le [rotated])
      then show False using False by simp
    qed
    then have abs_y: "\<bar>y\<bar> = 2 powi (b + 1)"
      using y_le by simp
    have "(2::real) powi (b + 1) < 2 powi (b + 1 + 1)"
      by (rule power_int_strict_increasing) simp_all
    then have "\<bar>y\<bar> < 2 powi (b + 1 + 1)"
      using abs_y by simp
    then have "c \<le> b + 1"
      unfolding c_def using b(1) by (intro binade_le) simp_all
    then have "c - 52 \<le> b + 1" by simp
    then have split: "(2::real) powi (b + 1) = 2 powi (c - 52) * of_int (2 ^ nat (b + 1 - (c - 52)))"
      by (rule two_powi_split)
    show ?thesis
    proof (cases "0 \<le> y")
      case True
      then have "y = ulp y * of_int (2 ^ nat (b + 1 - (c - 52)))"
        using abs_y split uy by simp
      then show ?thesis by blast
    next
      case False
      then have "y = - (2 powi (b + 1))"
        using abs_y by simp
      then have "y = ulp y * of_int (- (2 ^ nat (b + 1 - (c - 52))))"
        using split uy by simp
      then show ?thesis by blast
    qed
  qed
  then obtain K where "y = ulp y * of_int K" by blast
  then have "grid_round y = y"
    by (rule grid_round_multiple)
  then show ?thesis by (simp add: y_def)
qed

lemma round_double_idem: "round_double x = Finite y \<Longrightarrow> round_double y = Finite y"
proof -
  assume r: "round_double x = Finite y"
  then have y: "y = grid_round x"
    by (rule round_double_Finite)
  have bounds: "\<not> 2 powi 1024 \<le> y" "\<not> y \<le> - (2 powi 1024)"
    using r unfolding y by (simp_all add: round_double_grid split: if_splits)
  then have "\<bar>grid_round x\<bar> < 2 powi 1024"
    unfolding y by simp
  then have "grid_round y = y"
    unfolding y by (rule grid_round_idem)
  then show ?thesis
    using bounds by (simp add: round_double_grid)
qed

lemma is_double_round_double: "is_double (round_double x)"
  using round_double_idem [of x] by (cases "round_double x") simp_all

subsection \<open>Doubles in the arithmetic of the point size\<close>

lemma round_double_numeral:
  "(numeral k :: int) < 2 ^ 53 \<Longrightarrow> round_double (numeral k) = Finite (numeral k)"
  using round_double_of_int [of "numeral k"] by simp

lemma round_double_neg_numeral:
  "(numeral k :: int) < 2 ^ 53 \<Longrightarrow> round_double (- numeral k) = Finite (- numeral k)"
  using round_double_of_int [of "- numeral k"] by simp

lemma round_double_0: "round_double 0 = Finite 0"
  using round_double_of_int [of 0] by simp

lemma round_double_1: "round_double 1 = Finite 1"
  using round_double_of_int [of 1] by simp

lemmas round_double_integers =
  round_double_numeral round_double_neg_numeral round_double_0 round_double_1

lemma round_double_cases:
  "round_double x = PosInf \<or> round_double x = NegInf \<or> round_double x = Finite (grid_round x)"
  by (simp add: round_double_grid)

lemma is_double_dadd: "is_double (dadd a b)"
  by (cases a; cases b) (simp_all add: is_double_round_double)

lemma dmul_one_nonneg: "dle (Finite 0) change \<Longrightarrow> dle (Finite 0) (dmul change (Finite 1))"
proof (cases change)
  case (Finite d)
  assume "dle (Finite 0) change"
  then have "0 \<le> d" using Finite by simp
  then have "0 \<le> grid_round d" by (rule grid_round_nonneg)
  then show ?thesis
    using Finite round_double_cases [of d] by (auto simp add: round_double_grid)
qed (simp_all add: inf_of_sign_def)

lemma dmul_one_nonpos: "dle change (Finite 0) \<Longrightarrow> dle (dmul change (Finite 1)) (Finite 0)"
proof (cases change)
  case (Finite d)
  assume "dle change (Finite 0)"
  then have "d \<le> 0" using Finite by simp
  then have "grid_round d \<le> 0" by (rule grid_round_nonpos)
  then show ?thesis
    using Finite by (auto simp add: round_double_grid)
qed (simp_all add: inf_of_sign_def)

lemma dadd_nonneg_above:
  assumes rep: "round_double p = Finite p" and p: "1 \<le> p" "p \<le> 25"
    and c: "dle (Finite 0) c" and sum: "dadd (Finite p) c = Finite y"
  shows "p \<le> y"
proof (cases c)
  case (Finite z)
  then have "0 \<le> z" using c by simp
  then have le: "p \<le> p + z" by simp
  have "(25::real) < 2 powi 1023" by simp
  then have small: "p < 2 powi 1023" using p by linarith
  have "y = grid_round (p + z)"
    using sum Finite by (simp add: round_double_Finite)
  then show ?thesis
    using grid_round_above_representable [OF rep p(1) small le] by simp
qed (use c sum in simp_all)

lemma dadd_nonpos_below:
  assumes rep: "round_double p = Finite p" and p: "1 \<le> p" "p \<le> 25"
    and c: "dle c (Finite 0)" and sum: "dadd (Finite p) c = Finite y"
  shows "y \<le> p"
proof (cases c)
  case (Finite z)
  then have "z \<le> 0" using c by simp
  then have le: "p + z \<le> p" by simp
  have "(25::real) < 2 powi 1023" by simp
  then have small: "p < 2 powi 1023" using p by linarith
  have "y = grid_round (p + z)"
    using sum Finite by (simp add: round_double_Finite)
  then show ?thesis
    using grid_round_below_representable [OF rep p(1) small le] by simp
qed (use c sum in simp_all)

lemma in_range_Finite:
  "dle (Finite 1) n \<Longrightarrow> dle n (Finite 25) \<Longrightarrow> \<exists>y. n = Finite y \<and> 1 \<le> y \<and> y \<le> 25"
  by (cases n) simp_all

text \<open>
  Rounding at work: a change too small to register, a sum that is not a binary64
  value, and two sums that round onto the bounds 25 and 1.
\<close>

lemmas round_double_eval =
  round_double_def ulp_def binade_def round_half_even_def exponent_up.simps exponent_down.simps

lemma round_double_examples:
  "round_double (5 + 1 / 2 ^ 60) = Finite 5 \<and>
   round_double (5 + 1 / 10) = Finite (2871044762448691 / 562949953421312) \<and>
   round_double (5 / 4 / 2 ^ 48) = Finite (5 / 4 / 2 ^ 48) \<and>
   round_double (25 - 1 / 2 ^ 48 + 5 / 4 / 2 ^ 48) = Finite 25 \<and>
   round_double (1 + 1 / 2 ^ 52 - 9 / 8 / 2 ^ 52) = Finite 1"
  by (simp add: round_double_eval)

subsection \<open>The render modes and the mouse state\<close>

lemma ChangePointSize_cases:
  "ChangePointSize change m = m \<or>
   (ChangePointSize change m = m\<lparr>point_size := dadd (point_size m) (dmul change POINT_SIZE_STEP)\<rparr> \<and>
    dle POINT_SIZE_MIN (dadd (point_size m) (dmul change POINT_SIZE_STEP)) \<and>
    dle (dadd (point_size m) (dmul change POINT_SIZE_STEP)) POINT_SIZE_MAX)"
  by (simp add: ChangePointSize_def dge_def Let_def)

lemma ChangePointSize_bounds:
  assumes "dle POINT_SIZE_MIN (point_size m) \<and> dle (point_size m) POINT_SIZE_MAX"
  shows "dle POINT_SIZE_MIN (point_size (ChangePointSize change m)) \<and>
         dle (point_size (ChangePointSize change m)) POINT_SIZE_MAX"
  using assms ChangePointSize_cases [of change m] by auto

lemma ChangePointSize_calls_bounds:
  "dle POINT_SIZE_MIN (point_size m) \<and> dle (point_size m) POINT_SIZE_MAX \<Longrightarrow>
   dle POINT_SIZE_MIN (point_size (ChangePointSize_calls changes m)) \<and>
   dle (point_size (ChangePointSize_calls changes m)) POINT_SIZE_MAX"
proof (induction changes arbitrary: m)
  case Nil
  then show ?case by simp
next
  case (Cons change changes)
  have "dle POINT_SIZE_MIN (point_size (ChangePointSize change m)) \<and>
        dle (point_size (ChangePointSize change m)) POINT_SIZE_MAX"
    using Cons.prems by (rule ChangePointSize_bounds)
  then show ?case using Cons.IH by simp
qed

lemmas point_size_constants =
  POINT_SIZE_MIN_def POINT_SIZE_MAX_def POINT_SIZE_STEP_def POINT_SIZE_DEFAULT_def

lemma ChangePointSize_unfold:
  "ChangePointSize change m =
     (if dle (Finite 1) (dadd (point_size m) (dmul change (Finite 1))) \<and>
         dle (dadd (point_size m) (dmul change (Finite 1))) (Finite 25)
      then m\<lparr>point_size := dadd (point_size m) (dmul change (Finite 1))\<rparr>
      else m)"
  by (simp add: ChangePointSize_def dge_def point_size_constants Let_def)

lemma PointCloudRenderMode_init_bounds:
  "dle POINT_SIZE_MIN (point_size PointCloudRenderMode_init) \<and>
   dle (point_size PointCloudRenderMode_init) POINT_SIZE_MAX"
  by (simp add: PointCloudRenderMode_init_def point_size_constants)

lemma PointCloudRenderMode_init_size: "point_size PointCloudRenderMode_init = Finite 5"
  by (simp add: PointCloudRenderMode_init_def point_size_constants)

lemma is_double_ChangePointSize:
  "is_double (point_size m) \<Longrightarrow> is_double (point_size (ChangePointSize change m))"
  using ChangePointSize_cases [of change m] by (auto simp add: is_double_dadd)

lemma is_double_ChangePointSize_calls:
  "is_double (point_size m) \<Longrightarrow> is_double (point_size (ChangePointSize_calls changes m))"
  by (induction changes arbitrary: m) (simp_all add: is_double_ChangePointSize)

text \<open>
  Claim C1. Whatever sequence of \<^verbatim>\<open>ChangePointSize\<close> calls is made on a freshly
  constructed \<^verbatim>\<open>PointCloudRenderMode\<close>, the point size ends between 1.0 and 25.0.
  Each call computes \<^verbatim>\<open>point_size + change * 1.0\<close> in double arithmetic; when that
  value lies in [1.0, 25.0] it becomes the point size, and otherwise the object is left
  as it was. The changes range over all doubles, NaN and the infinities included.
\<close>

theorem ChangePointSize_invariant:
  "dle (Finite 1) (point_size (ChangePointSize_calls changes PointCloudRenderMode_init)) \<and>
   dle (point_size (ChangePointSize_calls changes PointCloudRenderMode_init)) (Finite 25) \<and>
   (dle (Finite 1) (dadd (point_size m) (dmul change (Finite 1))) \<and>
    dle (dadd (point_size m) (dmul change (Finite 1))) (Finite 25) \<longrightarrow>
      ChangePointSize change m =
        m\<lparr>point_size := dadd (point_size m) (dmul change (Finite 1))\<rparr>) \<and>
   (\<not> (dle (Finite 1) (dadd (point_size m) (dmul change (Finite 1))) \<and>
       dle (dadd (point_size m) (dmul change (Finite 1))) (Finite 25)) \<longrightarrow>
      ChangePointSize change m = m)"
proof -
  have "dle POINT_SIZE_MIN (point_size (ChangePointSize_calls changes PointCloudRenderMode_init)) \<and>
        dle (point_size (ChangePointSize_calls changes PointCloudRenderMode_init)) POINT_SIZE_MAX"
    using PointCloudRenderMode_init_bounds by (rule ChangePointSize_calls_bounds)
  then have inv:
    "dle (Finite 1) (point_size (ChangePointSize_calls changes PointCloudRenderMode_init)) \<and>
     dle (point_size (ChangePointSize_calls changes PointCloudRenderMode_init)) (Finite 25)"
    by (simp add: point_size_constants)
  show ?thesis using inv by (simp add: ChangePointSize_unfold)
qed

text \<open>
  C1 at concrete inputs: the calls with 1, 100, NaN and -3 from the fresh object take
  the size through 6, 6, 6 to 3; the call with 1 commits 6 and the call with 100 is a
  no-op.
\<close>

theorem ChangePointSize_invariant_witness:
  "point_size (ChangePointSize_calls [Finite 1, Finite 100, NaN, Finite (- 3)] PointCloudRenderMode_init)
     = Finite 3 \<and>
   dle (Finite 1) (Finite 3) \<and> dle (Finite 3) (Finite 25) \<and>
   ChangePointSize (Finite 1) PointCloudRenderMode_init =
     PointCloudRenderMode_init\<lparr>point_size := Finite 6\<rparr> \<and>
   ChangePointSize (Finite 100) PointCloudRenderMode_init = PointCloudRenderMode_init"
proof -
  note size = PointCloudRenderMode_init_size
  have commit: "ChangePointSize (Finite 1) PointCloudRenderMode_init =
      PointCloudRenderMode_init\<lparr>point_size := Finite 6\<rparr>"
    using ChangePointSize_invariant [of "[]" PointCloudRenderMode_init "Finite 1"]
    by (simp add: size round_double_integers)
  have keep: "ChangePointSize (Finite 100) PointCloudRenderMode_init = PointCloudRenderMode_init"
    using ChangePointSize_invariant [of "[]" PointCloudRenderMode_init "Finite 100"]
    by (simp add: size round_double_integers)
  have run: "point_size (ChangePointSize_calls [Finite 1, Finite 100, NaN, Finite (- 3)]
      PointCloudRenderMode_init) = Finite 3"
    by (simp add: ChangePointSize_unfold size round_double_integers)
  show ?thesis using commit keep run by simp
qed

text \<open>
  Claim C2 says that every call sets the point size to \<^verbatim>\<open>point_size + change * 1.0\<close>
  clamped to [1.0, 25.0]. It fails on the fresh object with change 100: the computed
  105 clamps to 25, and the code keeps 5.
\<close>

theorem ChangePointSize_clamp_counterexample:
  "point_size PointCloudRenderMode_init = Finite 5 \<and>
   point_size (ChangePointSize (Finite 100) PointCloudRenderMode_init) = Finite 5 \<and>
   clamp_double (Finite 1) (Finite 25)
     (dadd (point_size PointCloudRenderMode_init) (dmul (Finite 100) (Finite 1))) = Finite 25 \<and>
   point_size (ChangePointSize (Finite 100) PointCloudRenderMode_init) \<noteq>
     point_size (ChangePointSize_clamping (Finite 100) PointCloudRenderMode_init)"
  by (simp add: ChangePointSize_unfold ChangePointSize_clamping_def clamp_double_def
      PointCloudRenderMode_init_size point_size_constants round_double_integers)

lemma ChangePointSize_rounds_onto_bound:
  "point_size (ChangePointSize (Finite (5 / 4 / 2 ^ 48))
     (PointCloudRenderMode_init\<lparr>point_size := Finite (25 - 1 / 2 ^ 48)\<rparr>)) = Finite 25"
  using round_double_examples by (simp add: ChangePointSize_unfold)

lemma clamp_double_in_range:
  "dle lo x \<Longrightarrow> dle x hi \<Longrightarrow> clamp_double lo hi x = x"
  by (cases lo; cases x; cases hi) (auto simp add: clamp_double_def)

text \<open>
  Claim C2, amended. For every starting point size and every change, the call gives
  what the clamping variant gives when \<^verbatim>\<open>point_size + change * 1.0\<close>, as computed in
  double arithmetic, lies in [1.0, 25.0] (the value itself), and leaves the object
  unchanged otherwise: a result out of range is discarded, not moved to the nearer
  bound.
\<close>

theorem ChangePointSize_commit_or_keep:
  "ChangePointSize change m =
     (if dle (Finite 1) (dadd (point_size m) (dmul change (Finite 1))) \<and>
         dle (dadd (point_size m) (dmul change (Finite 1))) (Finite 25)
      then ChangePointSize_clamping change m
      else m)"
  by (simp add: ChangePointSize_unfold ChangePointSize_clamping_def point_size_constants
      clamp_double_in_range)

lemma ChangePointSize_step_up:
  assumes "1 \<le> n" "n \<le> 24" "point_size m = Finite (of_int n)"
  shows "ChangePointSize (Finite 1) m = m\<lparr>point_size := Finite (of_int (n + 1))\<rparr>"
proof -
  have "\<bar>n + 1\<bar> < 2 ^ 53" using assms by simp
  then have "round_double (of_int (n + 1)) = Finite (of_int (n + 1))"
    by (rule round_double_of_int)
  then have sum: "dadd (point_size m) (dmul (Finite 1) (Finite 1)) = Finite (of_int (n + 1))"
    using assms by (simp add: round_double_1 add.commute)
  have "dle (Finite 1) (Finite (of_int (n + 1))) \<and> dle (Finite (of_int (n + 1))) (Finite 25)"
    using assms by simp
  then show ?thesis
    unfolding ChangePointSize_unfold [of "Finite 1" m] sum by simp
qed

lemma ChangePointSize_steps:
  "k \<le> 20 \<Longrightarrow>
   (ChangePointSize (Finite 1) ^^ k) PointCloudRenderMode_init =
     PointCloudRenderMode_init\<lparr>point_size := Finite (of_int (5 + int k))\<rparr>"
proof (induction k)
  case 0
  then show ?case by (simp add: PointCloudRenderMode_init_def point_size_constants)
next
  case (Suc k)
  then have IH: "(ChangePointSize (Finite 1) ^^ k) PointCloudRenderMode_init =
      PointCloudRenderMode_init\<lparr>point_size := Finite (of_int (5 + int k))\<rparr>"
    by simp
  have "ChangePointSize (Finite 1) (PointCloudRenderMode_init\<lparr>point_size := Finite (of_int (5 + int k))\<rparr>) =
      PointCloudRenderMode_init\<lparr>point_size := Finite (of_int (5 + int k))\<rparr>
        \<lparr>point_size := Finite (of_int (5 + int k + 1))\<rparr>"
    using Suc.prems by (intro ChangePointSize_step_up) simp_all
  then show ?case using IH by (simp add: add.commute add.left_commute)
qed

text \<open>
  Claim C3. From the default size 5.0, \<^verbatim>\<open>k\<close> calls of \<^verbatim>\<open>ChangePointSize(1)\<close>
  give the size \<^verbatim>\<open>5 + k\<close> for every \<^verbatim>\<open>k\<close> up to 20, so the size is 25.0 after the
  20th call and not before; the 21st call leaves it at 25.0.
\<close>

theorem ChangePointSize_twenty_steps:
  "(\<forall>k\<le>20. point_size ((ChangePointSize (Finite 1) ^^ k) PointCloudRenderMode_init) =
      Finite (5 + real k)) \<and>
   point_size ((ChangePointSize (Finite 1) ^^ 20) PointCloudRenderMode_init) = Finite 25 \<and>
   point_size ((ChangePointSize (Finite 1) ^^ 21) PointCloudRenderMode_init) = Finite 25"
proof -
  have twenty: "(ChangePointSize (Finite 1) ^^ 20) PointCloudRenderMode_init =
      PointCloudRenderMode_init\<lparr>point_size := Finite 25\<rparr>"
    using ChangePointSize_steps [of 20] by simp
  have "(ChangePointSize (Finite 1) ^^ 21) PointCloudRenderMode_init =
      ChangePointSize (Finite 1) ((ChangePointSize (Finite 1) ^^ 20) PointCloudRenderMode_init)"
    by (simp add: numeral_eq_Suc)
  then have "point_size ((ChangePointSize (Finite 1) ^^ 21) PointCloudRenderMode_init) = Finite 25"
    by (simp add: twenty ChangePointSize_unfold round_double_integers)
  then show ?thesis using twenty by (simp add: ChangePointSize_steps)
qed

text \<open>C3 at 20 calls and at 3 calls.\<close>

theorem ChangePointSize_twenty_steps_witness:
  "(20::nat) \<le> 20 \<and>
   point_size ((ChangePointSize (Finite 1) ^^ 20) PointCloudRenderMode_init) = Finite (5 + real 20) \<and>
   (3::nat) \<le> 20 \<and>
   point_size ((ChangePointSize (Finite 1) ^^ 3) PointCloudRenderMode_init) = Finite 8"
proof -
  have all: "\<forall>k\<le>20. point_size ((ChangePointSize (Finite 1) ^^ k) PointCloudRenderMode_init) =
      Finite (5 + real k)"
    using ChangePointSize_twenty_steps by blast
  have a: "point_size ((ChangePointSize (Finite 1) ^^ 20) PointCloudRenderMode_init) = Finite (5 + real 20)"
    using all [rule_format, of 20] by simp
  have "point_size ((ChangePointSize (Finite 1) ^^ 3) PointCloudRenderMode_init) = Finite (5 + real 3)"
    using all [rule_format, of 3] by simp
  then have b: "point_size ((ChangePointSize (Finite 1) ^^ 3) PointCloudRenderMode_init) = Finite 8"
    by simp
  show ?thesis using a b by simp
qed

text \<open>
  Claim C4. A freshly constructed \<^verbatim>\<open>PointCloudRenderMode\<close> has point size 5.0, colour
  option \<^verbatim>\<open>POINTCOLOR_DEFAULT\<close> and \<^verbatim>\<open>show_normal\<close> false; a freshly constructed
  \<^verbatim>\<open>MeshRenderMode\<close> has the option \<^verbatim>\<open>MESHRENDER_FLATSHADE\<close>, and its default
  colour constant is (0.5, 0.5, 0.5).
\<close>

theorem fresh_render_modes:
  "point_size PointCloudRenderMode_init = Finite 5 \<and>
   point_color_option PointCloudRenderMode_init = POINTCOLOR_DEFAULT \<and>
   show_normal PointCloudRenderMode_init = False \<and>
   mesh_render_option MeshRenderMode_init = MESHRENDER_FLATSHADE \<and>
   DEFAULT_COLOR = (Finite 0.5, Finite 0.5, Finite 0.5)"
  by (simp add: PointCloudRenderMode_init_def POINT_SIZE_DEFAULT_def MeshRenderMode_init_def
      DEFAULT_COLOR_def)

text \<open>
  Claim C9. A freshly constructed \<^verbatim>\<open>MouseControl\<close> has the left button up, the
  control key up and the cursor at (0.0, 0.0).
\<close>

theorem fresh_MouseControl:
  "is_mouse_left_button_down MouseControl_init = False \<and>
   is_control_key_down MouseControl_init = False \<and>
   mouse_position_x MouseControl_init = Finite 0 \<and>
   mouse_position_y MouseControl_init = Finite 0"
  by (simp add: MouseControl_init_def)

lemma ChangePointSize_not_below:
  assumes d: "is_double (point_size m)"
    and b: "dle (Finite 1) (point_size m)" "dle (point_size m) (Finite 25)"
    and c: "dle (Finite 0) change"
  shows "dle (point_size m) (point_size (ChangePointSize change m))"
proof -
  obtain p where p: "point_size m = Finite p" "1 \<le> p" "p \<le> 25"
    using in_range_Finite [OF b] by blast
  have rep: "round_double p = Finite p" using d p by simp
  define n where "n = dadd (point_size m) (dmul change (Finite 1))"
  show ?thesis
  proof (cases "dle (Finite 1) n \<and> dle n (Finite 25)")
    case True
    then obtain y where y: "n = Finite y"
      using in_range_Finite by blast
    have "dadd (Finite p) (dmul change (Finite 1)) = Finite y"
      using y p by (simp add: n_def)
    then have "p \<le> y"
      using rep p(2,3) dmul_one_nonneg [OF c] by (rule dadd_nonneg_above [rotated -1])
    moreover have "point_size (ChangePointSize change m) = n"
      using True by (simp add: ChangePointSize_unfold n_def)
    ultimately show ?thesis using p y by simp
  next
    case False
    then have "ChangePointSize change m = m"
      by (auto simp add: ChangePointSize_unfold n_def)
    then show ?thesis using p by simp
  qed
qed

lemma ChangePointSize_not_above:
  assumes d: "is_double (point_size m)"
    and b: "dle (Finite 1) (point_size m)" "dle (point_size m) (Finite 25)"
    and c: "dle change (Finite 0)"
  shows "dle (point_size (ChangePointSize change m)) (point_size m)"
proof -
  obtain p where p: "point_size m = Finite p" "1 \<le> p" "p \<le> 25"
    using in_range_Finite [OF b] by blast
  have rep: "round_double p = Finite p" using d p by simp
  define n where "n = dadd (point_size m) (dmul change (Finite 1))"
  show ?thesis
  proof (cases "dle (Finite 1) n \<and> dle n (Finite 25)")
    case True
    then obtain y where y: "n = Finite y"
      using in_range_Finite by blast
    have "dadd (Finite p) (dmul change (Finite 1)) = Finite y"
      using y p by (simp add: n_def)
    then have "y \<le> p"
      using rep p(2,3) dmul_one_nonpos [OF c] by (rule dadd_nonpos_below [rotated -1])
    moreover have "point_size (ChangePointSize change m) = n"
      using True by (simp add: ChangePointSize_unfold n_def)
    ultimately show ?thesis using p y by simp
  next
    case False
    then have "ChangePointSize change m = m"
      by (auto simp add: ChangePointSize_unfold n_def)
    then show ?thesis using p by simp
  qed
qed

lemma ChangePointSize_zero: "is_double (point_size m) \<Longrightarrow> ChangePointSize (Finite 0) m = m"
  by (cases "point_size m") (simp_all add: ChangePointSize_unfold round_double_0)

text \<open>
  Claim C10. From a point size that is a double within [1.0, 25.0], a call with a
  change of at least 0 does not decrease the point size and a call with a change of at
  most 0 does not increase it: the rounded sum never crosses the double it started
  from. \<^verbatim>\<open>ChangePointSize(0)\<close> leaves unchanged every object whose point size is a
  double, in bounds or not. The point size is a double after any sequence of calls on
  the fresh object, so both hold wherever the code can get to.
\<close>

theorem ChangePointSize_monotone:
  "(is_double (point_size m) \<and> dle (Finite 1) (point_size m) \<and> dle (point_size m) (Finite 25) \<longrightarrow>
     (dle (Finite 0) change \<longrightarrow> dle (point_size m) (point_size (ChangePointSize change m))) \<and>
     (dle change (Finite 0) \<longrightarrow> dle (point_size (ChangePointSize change m)) (point_size m))) \<and>
   (is_double (point_size m) \<longrightarrow> ChangePointSize (Finite 0) m = m) \<and>
   is_double (point_size (ChangePointSize_calls changes PointCloudRenderMode_init)) \<and>
   ChangePointSize (Finite 0) (ChangePointSize_calls changes PointCloudRenderMode_init) =
     ChangePointSize_calls changes PointCloudRenderMode_init"
proof -
  have "is_double (point_size PointCloudRenderMode_init)"
    by (simp add: PointCloudRenderMode_init_size round_double_integers)
  then have reach: "is_double (point_size (ChangePointSize_calls changes PointCloudRenderMode_init))"
    by (rule is_double_ChangePointSize_calls)
  show ?thesis
    using reach ChangePointSize_not_below [of m change] ChangePointSize_not_above [of m change]
      ChangePointSize_zero
    by blast
qed

text \<open>
  C10 on the fresh object: the change 3 takes 5 up to 8, the change -2 takes 5 down to
  3, and the change 0 leaves it as it is.
\<close>

theorem ChangePointSize_monotone_witness:
  "is_double (point_size PointCloudRenderMode_init) \<and>
   dle (Finite 1) (point_size PointCloudRenderMode_init) \<and>
   dle (point_size PointCloudRenderMode_init) (Finite 25) \<and>
   dle (Finite 0) (Finite 3) \<and>
   point_size (ChangePointSize (Finite 3) PointCloudRenderMode_init) = Finite 8 \<and>
   dle (point_size PointCloudRenderMode_init) (point_size (ChangePointSize (Finite 3) PointCloudRenderMode_init)) \<and>
   dle (Finite (- 2)) (Finite 0) \<and>
   point_size (ChangePointSize (Finite (- 2)) PointCloudRenderMode_init) = Finite 3 \<and>
   dle (point_size (ChangePointSize (Finite (- 2)) PointCloudRenderMode_init)) (point_size PointCloudRenderMode_init) \<and>
   ChangePointSize (Finite 0) PointCloudRenderMode_init = PointCloudRenderMode_init"
proof -
  note size = PointCloudRenderMode_init_size
  have inb: "is_double (point_size PointCloudRenderMode_init) \<and>
      dle (Finite 1) (point_size PointCloudRenderMode_init) \<and>
      dle (point_size PointCloudRenderMode_init) (Finite 25)"
    by (simp add: size round_double_integers)
  have up: "dle (point_size PointCloudRenderMode_init)
      (point_size (ChangePointSize (Finite 3) PointCloudRenderMode_init))"
    using ChangePointSize_monotone [of PointCloudRenderMode_init "Finite 3"] inb by simp
  have down: "dle (point_size (ChangePointSize (Finite (- 2)) PointCloudRenderMode_init))
      (point_size PointCloudRenderMode_init)"
    using ChangePointSize_monotone [of PointCloudRenderMode_init "Finite (- 2)"] inb by simp
  have zero: "ChangePointSize (Finite 0) PointCloudRenderMode_init = PointCloudRenderMode_init"
    using ChangePointSize_monotone [of PointCloudRenderMode_init] inb by simp
  have three: "point_size (ChangePointSize (Finite 3) PointCloudRenderMode_init) = Finite 8"
    by (simp add: ChangePointSize_unfold size round_double_integers)
  have two: "point_size (ChangePointSize (Finite (- 2)) PointCloudRenderMode_init) = Finite 3"
    by (simp add: ChangePointSize_unfold size round_double_integers)
  show ?thesis using inb up down zero three two by simp
qed

subsection \<open>The operations modelled from the specification\<close>

lemma CyclePointColorOption_funpow:
  "(CyclePointColorOption ^^ k) m =
     m\<lparr>point_color_option := (next_PointColorOption ^^ k) (point_color_option m)\<rparr>"
  by (induction k) (simp_all add: CyclePointColorOption_def)

lemma next_PointColorOption_five: "(next_PointColorOption ^^ 5) c = c"
  by (cases c) (simp_all add: numeral_eq_Suc)

text \<open>
  Claim C5. Five applications of the colour-option cycle bring every option of
  {DEFAULT, COLOR, X, Y, Z} back to itself, on the option and on the render mode that
  holds it. One step goes to the enumerator with the next value, and from
  \<^verbatim>\<open>POINTCOLOR_Z\<close> back to \<^verbatim>\<open>POINTCOLOR_DEFAULT\<close>.
\<close>

theorem color_option_cycle_five:
  "(next_PointColorOption ^^ 5) c = c \<and>
   (CyclePointColorOption ^^ 5) m = m \<and>
   next_PointColorOption POINTCOLOR_Z = POINTCOLOR_DEFAULT \<and>
   PointColorOption_value (next_PointColorOption c) = (PointColorOption_value c + 1) mod 5"
proof -
  have "(CyclePointColorOption ^^ 5) m = m"
    by (simp only: CyclePointColorOption_funpow next_PointColorOption_five) simp
  moreover have "PointColorOption_value (next_PointColorOption c) = (PointColorOption_value c + 1) mod 5"
    by (cases c) simp_all
  ultimately show ?thesis by (simp add: next_PointColorOption_five)
qed

lemma geometry_ptrs_AddGeometry_calls:
  "geometry_ptrs (AddGeometry_calls gs v) = geometry_ptrs v @ gs"
  by (induction gs arbitrary: v) (simp_all add: AddGeometry_def)

lemma window_AddGeometry_calls: "window (AddGeometry_calls gs v) = window v"
  by (induction gs arbitrary: v) (simp_all add: AddGeometry_def)

lemma drawn_geometry_draw_dispatch: "drawn_geometry (draw_dispatch g) = g"
  by (cases g) simp_all

lemma drawn_geometry_Render: "map drawn_geometry (Render v) = geometry_ptrs v"
  by (simp add: Render_def drawn_geometry_draw_dispatch comp_def)

text \<open>
  Claim C6. \<^verbatim>\<open>HasGeometry\<close> is false on a viewer on which \<^verbatim>\<open>AddGeometry\<close> has not
  been called, with or without a window. On any viewer, after the calls with
  \<^verbatim>\<open>gs\<close> the registry is what it was followed by \<^verbatim>\<open>gs\<close> in the order of the
  calls, \<^verbatim>\<open>HasGeometry\<close> is true as soon as one call was made, and the window is as
  before. A frame draws exactly the entries of the registry, in its order: the earlier
  entries first, then \<^verbatim>\<open>gs\<close>. Nothing is dropped or merged: a reference added twice
  is stored twice and drawn twice.
\<close>

theorem AddGeometry_registry:
  "HasGeometry Visualizer_init = False \<and>
   HasGeometry (Visualizer_init\<lparr>window := w\<rparr>) = False \<and>
   HasGeometry (AddGeometry_calls gs v) = (HasGeometry v \<or> gs \<noteq> []) \<and>
   HasGeometry (AddGeometry_calls (g # gs) v) = True \<and>
   geometry_ptrs (AddGeometry_calls gs v) = geometry_ptrs v @ gs \<and>
   geometry_ptrs (AddGeometry_calls gs (Visualizer_init\<lparr>window := w\<rparr>)) = gs \<and>
   window (AddGeometry_calls gs v) = window v \<and>
   map drawn_geometry (Render v) = geometry_ptrs v \<and>
   Render (AddGeometry_calls gs v) = Render v @ map draw_dispatch gs \<and>
   geometry_ptrs (AddGeometry g (AddGeometry g v)) = geometry_ptrs v @ [g, g] \<and>
   Render (AddGeometry g (AddGeometry g v)) = Render v @ [draw_dispatch g, draw_dispatch g]"
proof -
  note ptrs = geometry_ptrs_AddGeometry_calls
  have empty: "geometry_ptrs Visualizer_init = []"
    by (simp add: Visualizer_init_def)
  have fresh: "HasGeometry Visualizer_init = False"
    by (simp add: HasGeometry_def empty)
  have fresh_window: "HasGeometry (Visualizer_init\<lparr>window := w\<rparr>) = False"
    by (simp add: HasGeometry_def empty)
  have has: "HasGeometry (AddGeometry_calls gs v) = (HasGeometry v \<or> gs \<noteq> [])"
    unfolding HasGeometry_def ptrs by simp
  have added: "HasGeometry (AddGeometry_calls (g # gs) v) = True"
    unfolding HasGeometry_def ptrs by simp
  have from_fresh: "geometry_ptrs (AddGeometry_calls gs (Visualizer_init\<lparr>window := w\<rparr>)) = gs"
    unfolding ptrs by (simp add: empty)
  have order: "Render (AddGeometry_calls gs v) = Render v @ map draw_dispatch gs"
    unfolding Render_def ptrs by simp
  have twice: "geometry_ptrs (AddGeometry g (AddGeometry g v)) = geometry_ptrs v @ [g, g]"
    by (simp add: AddGeometry_def)
  have twice_drawn: "Render (AddGeometry g (AddGeometry g v)) =
      Render v @ [draw_dispatch g, draw_dispatch g]"
    unfolding Render_def twice by simp
  show ?thesis
    using fresh fresh_window has added ptrs [of gs v] from_fresh window_AddGeometry_calls [of gs v]
      drawn_geometry_Render [of v] order twice twice_drawn
    by simp
qed

text \<open>
  C6 on a viewer that holds an open window: after the calls with a point cloud, a mesh
  and the same point cloud again, the registry and the draw calls of a frame list the
  three in that order, and \<^verbatim>\<open>HasGeometry\<close> has turned from false to true.
\<close>

theorem AddGeometry_registry_witness:
  "HasGeometry (Visualizer_init\<lparr>window := Some Open\<rparr>) = False \<and>
   HasGeometry (AddGeometry_calls [PointCloud 1, TriangleMesh 2, PointCloud 1]
     (Visualizer_init\<lparr>window := Some Open\<rparr>)) = True \<and>
   geometry_ptrs (AddGeometry_calls [PointCloud 1, TriangleMesh 2, PointCloud 1]
     (Visualizer_init\<lparr>window := Some Open\<rparr>)) = [PointCloud 1, TriangleMesh 2, PointCloud 1] \<and>
   Render (AddGeometry_calls [PointCloud 1, TriangleMesh 2, PointCloud 1]
     (Visualizer_init\<lparr>window := Some Open\<rparr>)) =
     [DrawPointCloud 1, DrawTriangleMesh 2, DrawPointCloud 1]"
proof -
  have empty: "Render (Visualizer_init\<lparr>window := Some Open\<rparr>) = []"
    by (simp add: Render_def Visualizer_init_def)
  show ?thesis
    using AddGeometry_registry [of "Some Open" "[TriangleMesh 2, PointCloud 1]"
        "Visualizer_init\<lparr>window := Some Open\<rparr>" "PointCloud 1"]
      AddGeometry_registry [of "Some Open" "[PointCloud 1, TriangleMesh 2, PointCloud 1]"
        "Visualizer_init\<lparr>window := Some Open\<rparr>" "PointCloud 1"]
    by (simp add: empty)
qed

lemma dispatch_event_Closed: "dispatch_event esc e Closed = Closed"
  by (simp add: dispatch_event_def WindowCloseCallback_def)

lemma fold_dispatch_event_Closed: "fold (dispatch_event esc) queue Closed = Closed"
  by (induction queue) (simp_all add: dispatch_event_Closed)

lemma fold_dispatch_event_Open:
  "fold (dispatch_event esc) queue Open =
     (if list_ex (close_requested esc) queue then Closed else Open)"
proof (induction queue)
  case Nil
  then show ?case by simp
next
  case (Cons e queue)
  show ?case
  proof (cases "close_requested esc e")
    case True
    then have "dispatch_event esc e Open = Closed"
      by (simp add: dispatch_event_def WindowCloseCallback_def)
    then show ?thesis using True by (simp add: fold_dispatch_event_Closed)
  next
    case False
    then have "dispatch_event esc e Open = Open"
      by (simp add: dispatch_event_def)
    then show ?thesis using False Cons.IH by simp
  qed
qed

lemma event_call_Open:
  "event_call esc c Open = (if call_closes esc c then (False, Closed) else (True, Open))"
proof (cases c)
  case (CallPollEvents queue)
  then show ?thesis
    by (simp add: PollEvents_def call_closes_def fold_dispatch_event_Open)
next
  case (CallWaitEvents first queue)
  have "fold (dispatch_event esc) (first # queue) Open =
      (if list_ex (close_requested esc) (first # queue) then Closed else Open)"
    by (rule fold_dispatch_event_Open)
  then show ?thesis
    using CallWaitEvents by (simp add: WaitEvents_def call_closes_def)
qed

lemma event_call_Closed: "event_call esc c Closed = (False, Closed)"
proof (cases c)
  case (CallPollEvents queue)
  then show ?thesis
    by (simp add: PollEvents_def fold_dispatch_event_Closed)
next
  case (CallWaitEvents first queue)
  have "fold (dispatch_event esc) (first # queue) Closed = Closed"
    by (rule fold_dispatch_event_Closed)
  then show ?thesis
    using CallWaitEvents by (simp add: WaitEvents_def)
qed

lemma event_calls_Closed: "event_calls esc cs Closed = replicate (length cs) False"
  by (induction cs) (simp_all add: event_call_Closed)

lemma event_calls_Open:
  "event_calls esc cs Open =
     replicate (length (takeWhile (\<lambda>c. \<not> call_closes esc c) cs)) True @
     replicate (length (dropWhile (\<lambda>c. \<not> call_closes esc c) cs)) False"
proof (induction cs)
  case Nil
  then show ?case by simp
next
  case (Cons c cs)
  show ?case
  proof (cases "call_closes esc c")
    case True
    then show ?thesis
      by (simp add: event_call_Open event_calls_Closed)
  next
    case False
    then show ?thesis
      using Cons.IH by (simp add: event_call_Open)
  qed
qed

text \<open>
  Claim C7. In a loop of \<^verbatim>\<open>PollEvents\<close> and \<^verbatim>\<open>WaitEvents\<close> calls on an open
  window, every call before the first one whose queue holds a close request returns
  true, and that call and every call after it return false. On a closed window every
  call returns false. A single call on an open window returns true and leaves the
  window open when its queue holds no close request, and returns false with the window
  closed otherwise. This holds whatever key presses count as escape-equivalent.
\<close>

theorem event_loop_return_values:
  "event_calls esc cs Open =
     replicate (length (takeWhile (\<lambda>c. \<not> call_closes esc c) cs)) True @
     replicate (length (dropWhile (\<lambda>c. \<not> call_closes esc c) cs)) False \<and>
   event_calls esc cs Closed = replicate (length cs) False \<and>
   PollEvents esc queue Open =
     (if list_ex (close_requested esc) queue then (False, Closed) else (True, Open)) \<and>
   WaitEvents esc first queue Open =
     (if list_ex (close_requested esc) (first # queue) then (False, Closed) else (True, Open)) \<and>
   PollEvents esc queue Closed = (False, Closed) \<and>
   WaitEvents esc first queue Closed = (False, Closed)"
proof -
  have poll_open: "PollEvents esc queue Open =
      (if list_ex (close_requested esc) queue then (False, Closed) else (True, Open))"
    using event_call_Open [of esc "CallPollEvents queue"] by (simp add: call_closes_def)
  have wait_open: "WaitEvents esc first queue Open =
      (if list_ex (close_requested esc) (first # queue) then (False, Closed) else (True, Open))"
    using event_call_Open [of esc "CallWaitEvents first queue"] by (simp add: call_closes_def)
  have poll_closed: "PollEvents esc queue Closed = (False, Closed)"
    using event_call_Closed [of esc "CallPollEvents queue"] by simp
  have wait_closed: "WaitEvents esc first queue Closed = (False, Closed)"
    using event_call_Closed [of esc "CallWaitEvents first queue"] by simp
  show ?thesis
    using event_calls_Open [of esc cs] event_calls_Closed [of esc cs]
      poll_open wait_open poll_closed wait_closed
    by simp
qed

text \<open>
  C7 on a concrete loop, with the press of key 256 as the escape-equivalent: three
  calls return true, the call that meets the key press returns false, and so do the
  two calls after it. A window-close event does the same.
\<close>

theorem event_loop_return_values_witness:
  "event_calls escape_press
     [CallPollEvents [MouseMove (Finite 3) (Finite 4), WindowResize 800 600],
      CallWaitEvents (KeyPress 65 0 1 0) [],
      CallPollEvents [],
      CallWaitEvents WindowRefresh [KeyPress 256 0 1 0],
      CallPollEvents [MouseScroll (Finite 0) (Finite 1)],
      CallPollEvents []] Open
     = [True, True, True, False, False, False] \<and>
   event_calls escape_press
     [CallPollEvents [WindowClose], CallPollEvents []] Open = [False, False] \<and>
   PollEvents escape_press [WindowRefresh, WindowClose] Open = (False, Closed) \<and>
   PollEvents escape_press [WindowRefresh] Open = (True, Open)"
proof -
  have a: "event_calls escape_press
     [CallPollEvents [MouseMove (Finite 3) (Finite 4), WindowResize 800 600],
      CallWaitEvents (KeyPress 65 0 1 0) [],
      CallPollEvents [],
      CallWaitEvents WindowRefresh [KeyPress 256 0 1 0],
      CallPollEvents [MouseScroll (Finite 0) (Finite 1)],
      CallPollEvents []] Open
     = [True, True, True, False, False, False]"
    using event_loop_return_values [of escape_press
      "[CallPollEvents [MouseMove (Finite 3) (Finite 4), WindowResize 800 600],
        CallWaitEvents (KeyPress 65 0 1 0) [],
        CallPollEvents [],
        CallWaitEvents WindowRefresh [KeyPress 256 0 1 0],
        CallPollEvents [MouseScroll (Finite 0) (Finite 1)],
        CallPollEvents []]"]
    by (simp add: call_closes_def escape_press_def)
  have b: "event_calls escape_press
     [CallPollEvents [WindowClose], CallPollEvents []] Open = [False, False]"
    using event_loop_return_values [of escape_press
      "[CallPollEvents [WindowClose], CallPollEvents []]"]
    by (simp add: call_closes_def)
  have c: "PollEvents escape_press [WindowRefresh, WindowClose] Open = (False, Closed)"
    using event_loop_return_values [of escape_press _ "[WindowRefresh, WindowClose]"] by simp
  have d: "PollEvents escape_press [WindowRefresh] Open = (True, Open)"
    using event_loop_return_values [of escape_press _ "[WindowRefresh]"] by simp
  show ?thesis using a b c d by simp
qed

end
